theory Spec2Isabelle
  imports Main "HOL-Library.AList"
begin

section \<open>GossipBot: the TCP broadcast relay of index.js\<close>

text \<open>
  The relay of \<^verbatim>\<open>index.js\<close> is a set of event handlers over three pieces of
  process-wide state: the registry \<^verbatim>\<open>listeners\<close> (a JavaScript object keyed by
  the nickname of each socket), the fields \<^verbatim>\<open>status\<close> and \<^verbatim>\<open>port\<close> hung
  on \<^verbatim>\<open>netServer\<close>, and \<^verbatim>\<open>controller.authenticatedUsers\<close>. Node runs one
  handler at a time, so each handler is a function from the state before it to the state
  after it. What a handler asks of the runtime (a write on a socket, a reply through the
  bot, a line on the console, a callback handed to \<^verbatim>\<open>netServer.close\<close>) is
  recorded in the state, in the order of the calls.
\<close>

subsection \<open>Strings\<close>

definition newline :: char where
  "newline = CHR 0x0A"

definition tab :: char where
  "tab = CHR 0x09"

text \<open>
  \<^verbatim>\<open>s.split("\n")\<close>, for the one-character separator the source uses: the pieces
  between the separators, empty pieces included, so the empty string gives one empty piece.
\<close>

fun str_split :: "char \<Rightarrow> string \<Rightarrow> string list" where
  "str_split sep [] = [[]]"
| "str_split sep (x # xs) =
     (if x = sep then [] # str_split sep xs
      else (case str_split sep xs of
              [] \<Rightarrow> [[x]]
            | piece # pieces \<Rightarrow> (x # piece) # pieces))"

text \<open>\<^verbatim>\<open>pieces.join(sep)\<close>.\<close>

fun str_join :: "string \<Rightarrow> string list \<Rightarrow> string" where
  "str_join sep [] = []"
| "str_join sep [piece] = piece"
| "str_join sep (piece # pieces) = piece @ sep @ str_join sep pieces"

definition digit_char :: "nat \<Rightarrow> char" where
  "digit_char d = char_of (48 + d)"

text \<open>
  The decimal numeral a template literal prints for a non-negative integer
  (\<^verbatim>\<open>listenerID\<close>, \<^verbatim>\<open>count\<close>, \<^verbatim>\<open>users.length\<close>).
\<close>

function show_nat :: "nat \<Rightarrow> string" where
  "show_nat n = (if n < 10 then [digit_char n] else show_nat (n div 10) @ [digit_char (n mod 10)])"
  by pat_completeness auto
termination
  by (relation "measure (\<lambda>n. n)") auto

declare show_nat.simps [simp del]

subsection \<open>Sockets and the registry\<close>

text \<open>
  The calls the program makes on a socket. The transport behind them belongs to Node;
  the model keeps the transcript of the calls, oldest first.
\<close>

datatype call = SetNoDelay | Write string | End | Pause | Resume

text \<open>
  A socket as the connection handler of lines 120 to 150 dresses it: \<^verbatim>\<open>nickname\<close>
  and \<^verbatim>\<open>status\<close> are the two fields the program adds. \<^verbatim>\<open>status\<close> is a
  JavaScript string, compared with \<^verbatim>\<open>===\<close> against \<^verbatim>\<open>"running"\<close> and
  \<^verbatim>\<open>"paused"\<close>.
\<close>

record socket =
  nickname :: string
  status :: string
  calls :: "call list"

text \<open>
  \<^verbatim>\<open>listeners\<close>: an object whose keys are the nicknames. \<^verbatim>\<open>Object.keys\<close>
  lists string keys in insertion order, an assignment to an existing key keeps its place
  and \<^verbatim>\<open>delete\<close> removes it: an association list with \<open>AList.update\<close> and
  \<open>AList.delete\<close>.
\<close>

type_synonym registry = "(string \<times> socket) list"

definition keys :: "registry \<Rightarrow> string list" where
  "keys ls = map fst ls"

text \<open>
  \<^verbatim>\<open>listeners[user].f(...)\<close> or an assignment to a field of \<^verbatim>\<open>listeners[user]\<close>.
  Every loop of the source takes \<^verbatim>\<open>user\<close> from \<^verbatim>\<open>Object.keys(listeners)\<close>
  and removes no key while it runs, so the lookup finds the socket (lemma
  \<open>map_of_keys\<close> below); a socket event for a nickname that has left the registry
  changes an object the registry no longer holds.
\<close>

definition on_socket :: "string \<Rightarrow> (socket \<Rightarrow> socket) \<Rightarrow> registry \<Rightarrow> registry" where
  "on_socket u f ls =
     (case map_of ls u of
        None \<Rightarrow> ls
      | Some sock \<Rightarrow> AList.update u (f sock) ls)"

text \<open>\<^verbatim>\<open>listeners[user].status\<close>, under the same convention.\<close>

definition status_of :: "registry \<Rightarrow> string \<Rightarrow> string" where
  "status_of ls u = (case map_of ls u of None \<Rightarrow> [] | Some sock \<Rightarrow> status sock)"

definition has_status :: "registry \<Rightarrow> string \<Rightarrow> string \<Rightarrow> bool" where
  "has_status ls u s = (case map_of ls u of None \<Rightarrow> False | Some sock \<Rightarrow> status sock = s)"

definition record_call :: "call \<Rightarrow> socket \<Rightarrow> socket" where
  "record_call c sock = sock\<lparr>calls := calls sock @ [c]\<rparr>"

subsection \<open>Messages and the state\<close>

text \<open>
  The fields of a chat message the handlers read; the field \<^verbatim>\<open>text\<close> is written
  \<open>text'\<close> here.
\<close>

record message =
  channel :: string
  user :: string
  text' :: string

text \<open>
  What \<^verbatim>\<open>broadcast\<close> is given: a string, an object with \<^verbatim>\<open>channel\<close>,
  \<^verbatim>\<open>user\<close> and \<^verbatim>\<open>text\<close>, or a value whose \<^verbatim>\<open>typeof\<close> is neither
  (for which both tests of lines 160 and 162 fail). An object without a string
  \<^verbatim>\<open>text\<close> would make line 163 throw; the one caller, the handler of ambient
  messages, builds all three fields as strings, and the type leaves such objects out.
\<close>

datatype payload = RawText string | Structured message | Other

datatype colour = Plain | Red | Yellow

text \<open>
  \<^verbatim>\<open>listenerPort\<close> is the constant read from the environment. \<^verbatim>\<open>netServer.status\<close>
  and \<^verbatim>\<open>netServer.port\<close> are strings once set; before the first listen callback
  they are \<^verbatim>\<open>undefined\<close>, which the handlers compare unequal to their three
  literals and print as \<^verbatim>\<open>undefined\<close>, as they would that string.
  \<^verbatim>\<open>close_callbacks\<close> and \<^verbatim>\<open>listen_callbacks\<close> hold the callbacks handed to
  \<^verbatim>\<open>netServer.close\<close> and \<^verbatim>\<open>netServer.listen\<close> that have not fired yet, each
  by the message it closes over; \<^verbatim>\<open>conversations\<close> holds the password questions
  that wait for an answer.
\<close>

record state =
  listenerPort :: string
  listenerID :: nat
  listeners :: registry
  server_status :: string
  server_port :: string
  authenticatedUsers :: "string list"
  console :: "(colour \<times> string) list"
  replies :: "(message \<times> string) list"
  close_callbacks :: "message list"
  listen_callbacks :: "message list"
  conversations :: "message list"

definition console_log :: "colour \<Rightarrow> string \<Rightarrow> state \<Rightarrow> state" where
  "console_log c line st = st\<lparr>console := console st @ [(c, line)]\<rparr>"

definition reply :: "message \<Rightarrow> string \<Rightarrow> state \<Rightarrow> state" where
  "reply m s st = st\<lparr>replies := replies st @ [(m, s)]\<rparr>"

subsection \<open>broadcast (lines 158 to 180)\<close>

text \<open>The array \<^verbatim>\<open>send\<close> of lines 159 to 166.\<close>

fun decompose :: "payload \<Rightarrow> string list" where
  "decompose (RawText s) = str_split newline s"
| "decompose (Structured m) =
     map (\<lambda>line. channel m @ '','' @ user m @ '','' @ line) (str_split newline (text' m))"
| "decompose Other = []"

text \<open>The inner loop of lines 170 to 172 on one socket.\<close>

definition write_lines :: "string list \<Rightarrow> socket \<Rightarrow> socket" where
  "write_lines send sock = fold (\<lambda>line. record_call (Write (line @ [newline]))) send sock"

definition broadcast :: "payload \<Rightarrow> state \<Rightarrow> state" where
  "broadcast message st =
     (let send = decompose message;
          st1 = st\<lparr>listeners :=
                  fold (\<lambda>u ls.
                          if has_status ls u ''running''
                          then on_socket u (write_lines send) ls
                          else ls)
                       (keys (listeners st)) (listeners st)\<rparr>
      in fold (console_log Plain) send st1)"

subsection \<open>The connection handler and the socket events (lines 120 to 154)\<close>

definition on_connection :: "state \<Rightarrow> state" where
  "on_connection st =
     (let clientName = ''net#'' @ show_nat (listenerID st);
          sock = \<lparr>nickname = clientName, status = ''running'', calls = [SetNoDelay]\<rparr>;
          st1 = st\<lparr>listenerID := listenerID st + 1,
                   listeners := AList.update clientName sock (listeners st)\<rparr>
      in console_log Plain (clientName @ '' has joined'') st1)"

definition on_error :: "string \<Rightarrow> state \<Rightarrow> state" where
  "on_error clientName st = console_log Red (clientName @ '' has disconnected abruptly'') st"

definition on_pause :: "string \<Rightarrow> state \<Rightarrow> state" where
  "on_pause clientName st =
     console_log Plain (clientName @ '' is paused'')
       (st\<lparr>listeners := on_socket clientName (\<lambda>sock. sock\<lparr>status := ''paused''\<rparr>) (listeners st)\<rparr>)"

definition on_resume :: "string \<Rightarrow> state \<Rightarrow> state" where
  "on_resume clientName st =
     console_log Plain (clientName @ '' is running'')
       (st\<lparr>listeners := on_socket clientName (\<lambda>sock. sock\<lparr>status := ''running''\<rparr>) (listeners st)\<rparr>)"

definition on_close :: "string \<Rightarrow> state \<Rightarrow> state" where
  "on_close clientName st =
     (console_log Plain (clientName @ '' has disconnected gracefully'') st)
       \<lparr>listeners := AList.delete clientName (listeners st)\<rparr>"

text \<open>The callback of the first \<^verbatim>\<open>listen\<close>, lines 151 to 154.\<close>

definition on_listening :: "state \<Rightarrow> state" where
  "on_listening st = st\<lparr>server_status := ''listening'', server_port := listenerPort st\<rparr>"

subsection \<open>The authentication gate (lines 182 to 192)\<close>

definition isAuthenticated :: "state \<Rightarrow> string \<Rightarrow> bool" where
  "isAuthenticated st u = (u \<in> set (authenticatedUsers st))"

definition not_authenticated_text :: string where
  "not_authenticated_text =
     ''You'll need to be authenticated first. type 'authenticate' to continue''"

definition authenticatedTask :: "message \<Rightarrow> (message \<Rightarrow> state \<Rightarrow> state) \<Rightarrow> state \<Rightarrow> state" where
  "authenticatedTask m task st =
     (if isAuthenticated st (user m) then task m st else reply m not_authenticated_text st)"

subsection \<open>The commands (lines 195 to 419)\<close>

datatype command =
  Authenticate | Options | Status | EndAll | PauseAll | ResumeAll | CloseServer | OpenServer

fun commandList :: "command \<Rightarrow> string list" where
  "commandList Authenticate = [''authenticate'']"
| "commandList Options = [''options'']"
| "commandList Status = [''status'']"
| "commandList EndAll = [''end-all'']"
| "commandList PauseAll = [''pause-all'']"
| "commandList ResumeAll = [''resume-all'']"
| "commandList CloseServer = [''close-server'']"
| "commandList OpenServer = [''open-server'']"

fun description :: "command \<Rightarrow> string" where
  "description Authenticate = ''Authenticate into the system''"
| "description Options = ''Get a list of all availale commands''"
| "description Status = ''Get Status of external connections''"
| "description EndAll = ''End all of the current connections''"
| "description PauseAll = ''Pause all connections''"
| "description ResumeAll = ''Resume all of the currently paused connections''"
| "description CloseServer = ''Close the server''"
| "description OpenServer = ''Open the server''"

text \<open>\<^verbatim>\<open>Object.keys(controller.commands)\<close>.\<close>

definition all_commands :: "command list" where
  "all_commands =
     [Authenticate, Options, Status, EndAll, PauseAll, ResumeAll, CloseServer, OpenServer]"

text \<open>
  The handler of \<^verbatim>\<open>authenticate\<close>, lines 235 to 276. The conversation is the bot
  framework's: the model keeps that a question is open for the message, says the question
  where replies go, and takes the answer as an event that tells whether it matched the
  pattern \<^verbatim>\<open>process.env.PASSWORD\<close>. The append to the file \<^verbatim>\<open>.users\<close> and the
  line its callback logs are left out.
\<close>

definition authenticate_handler :: "message \<Rightarrow> state \<Rightarrow> state" where
  "authenticate_handler m st =
     (if \<not> isAuthenticated st (user m)
      then reply m ''What's the password?''
             (st\<lparr>conversations := conversations st @ [m]\<rparr>)
      else reply m ''You're already authenticated!'' st)"

definition on_answer :: "message \<Rightarrow> bool \<Rightarrow> state \<Rightarrow> state" where
  "on_answer m matches st =
     (if m \<in> set (conversations st)
      then (let st1 = st\<lparr>conversations := remove1 m (conversations st)\<rparr>
            in if matches
               then reply m ''Roger, you're in!''
                      (st1\<lparr>authenticatedUsers := authenticatedUsers st1 @ [user m]\<rparr>)
               else reply m ''Are you trying to get me fired?'' st1)
      else st)"

text \<open>The task of \<^verbatim>\<open>status\<close>, lines 283 to 290.\<close>

definition status_task :: "message \<Rightarrow> state \<Rightarrow> state" where
  "status_task m st =
     (let users = keys (listeners st);
          outMessage = ''Listener Port: '' @ server_port st;
          outMessage = outMessage @ [newline] @ ''Server Status: '' @ server_status st;
          outMessage = outMessage @ [newline] @ ''Current Connections: '' @ show_nat (length users);
          outMessage = fold (\<lambda>u out. out @ [newline, tab] @ u @ '' is '' @ status_of (listeners st) u)
                         users outMessage
      in reply m outMessage st)"

text \<open>The handler of \<^verbatim>\<open>options\<close>, lines 298 to 313: it does not go through the gate.\<close>

definition options_handler :: "message \<Rightarrow> state \<Rightarrow> state" where
  "options_handler m st =
     (let commands = (if isAuthenticated st (user m) then all_commands
                      else [Options, Authenticate]);
          outMessage = fold (\<lambda>c out. out @ [newline, tab] @ str_join '', '' (commandList c)
                                         @ '' : '' @ description c)
                         commands ''Command List:''
      in reply m outMessage st)"

text \<open>The task of \<^verbatim>\<open>end-all\<close>, lines 321 to 329.\<close>

definition endAll_task :: "message \<Rightarrow> state \<Rightarrow> state" where
  "endAll_task m st =
     (let users = keys (listeners st);
          (ls, count) = fold (\<lambda>u (ls, count). (on_socket u (record_call End) ls, count + 1))
                          users (listeners st, 0::nat)
      in reply m (''Clients Terminated: '' @ show_nat count) (st\<lparr>listeners := ls\<rparr>))"

text \<open>
  \<^verbatim>\<open>listeners[user].pause()\<close>: Node's \<^verbatim>\<open>pause\<close> emits the event \<^verbatim>\<open>pause\<close>
  before it returns when the stream is not paused already, so the handler of lines 136 to
  139 runs inside the call. \<^verbatim>\<open>resume\<close> emits \<^verbatim>\<open>resume\<close> on a later tick: the
  call is recorded and the event arrives on its own.
\<close>

definition socket_pause :: "string \<Rightarrow> state \<Rightarrow> state" where
  "socket_pause u st =
     on_pause u (st\<lparr>listeners := on_socket u (record_call Pause) (listeners st)\<rparr>)"

text \<open>The task of \<^verbatim>\<open>pause-all\<close>, lines 339 to 347.\<close>

definition pauseAll_task :: "message \<Rightarrow> state \<Rightarrow> state" where
  "pauseAll_task m st =
     (let users = keys (listeners st);
          st1 = fold (\<lambda>u s. if has_status (listeners s) u ''running'' then socket_pause u s else s)
                  users st
      in reply m (''Clients Paused: '' @ show_nat (length users)) st1)"

text \<open>The task of \<^verbatim>\<open>resume-all\<close>, lines 357 to 366.\<close>

definition resumeAll_task :: "message \<Rightarrow> state \<Rightarrow> state" where
  "resumeAll_task m st =
     (let users = keys (listeners st);
          (ls, count) = fold (\<lambda>u (ls, count).
                                if has_status ls u ''paused''
                                then (on_socket u (record_call Resume) ls, count + 1)
                                else (ls, count))
                          users (listeners st, 0::nat)
      in reply m (''Clients Resumed: '' @ show_nat count) (st\<lparr>listeners := ls\<rparr>))"

text \<open>
  The task of \<^verbatim>\<open>close-server\<close>, lines 376 to 394. \<^verbatim>\<open>netServer.close\<close> keeps
  the callback until the listener has shut down.
\<close>

definition closeServer_task :: "message \<Rightarrow> state \<Rightarrow> state" where
  "closeServer_task m st =
     (if server_status st = ''listening'' then
        (let st1 = (if length (keys (listeners st)) > 0
                    then reply m ''Hint: telling me to 'end-all' should end it now''
                           (reply m ''Server will remain open until all listeners disconnect''
                              (reply m ''Attempting to Close Server''
                                 (st\<lparr>server_status := ''closing''\<rparr>)))
                    else st)
         in st1\<lparr>close_callbacks := close_callbacks st1 @ [m]\<rparr>)
      else if server_status st = ''closed'' then
        reply m ''Can't close a closed Server'' st
      else if server_status st = ''closing'' then
        reply m ''Hint: you can tell me to 'end-all' to close all the listeners''
          (reply m ''Server is already closing.  It will close after all listeners disconnect.'' st)
      else reply m (''Server in a weird state: '' @ server_status st) st)"

text \<open>The callback of lines 383 to 386, when the runtime fires it.\<close>

definition on_close_done :: "state \<Rightarrow> state" where
  "on_close_done st =
     (case close_callbacks st of
        [] \<Rightarrow> st
      | m # ms \<Rightarrow> (reply m ''Server Successfully closed'' (st\<lparr>close_callbacks := ms\<rparr>))
                    \<lparr>server_status := ''closed''\<rparr>)"

text \<open>The task of \<^verbatim>\<open>open-server\<close>, lines 404 to 416.\<close>

definition openServer_task :: "message \<Rightarrow> state \<Rightarrow> state" where
  "openServer_task m st =
     (if server_status st = ''closed'' then
        st\<lparr>listen_callbacks := listen_callbacks st @ [m]\<rparr>
      else if server_status st = ''listening'' then
        reply m ''Can't open an open Server'' st
      else if server_status st = ''closing'' then
        reply m (''Hint: you can tell me to 'end-all' to close all the listeners ''
                   @ ''and then 'open-server' to open properly'')
          (reply m ''Server is currently closing.  It will close after all listeners disconnect.'' st)
      else reply m (''Server in a weird state: '' @ server_status st) st)"

text \<open>The callback of lines 405 to 408.\<close>

definition on_listen_done :: "state \<Rightarrow> state" where
  "on_listen_done st =
     (case listen_callbacks st of
        [] \<Rightarrow> st
      | m # ms \<Rightarrow> (reply m ''Server Successfully opened'' (st\<lparr>listen_callbacks := ms\<rparr>))
                    \<lparr>server_status := ''listening''\<rparr>)"

text \<open>What \<^verbatim>\<open>controller.hears\<close> runs for each command.\<close>

fun hears :: "command \<Rightarrow> message \<Rightarrow> state \<Rightarrow> state" where
  "hears Authenticate m st = authenticate_handler m st"
| "hears Options m st = options_handler m st"
| "hears Status m st = authenticatedTask m status_task st"
| "hears EndAll m st = authenticatedTask m endAll_task st"
| "hears PauseAll m st = authenticatedTask m pauseAll_task st"
| "hears ResumeAll m st = authenticatedTask m resumeAll_task st"
| "hears CloseServer m st = authenticatedTask m closeServer_task st"
| "hears OpenServer m st = authenticatedTask m openServer_task st"

text \<open>The handler of ambient messages, lines 424 to 430.\<close>

definition ambient_handler :: "message \<Rightarrow> state \<Rightarrow> state" where
  "ambient_handler m st =
     broadcast (Structured \<lparr>channel = channel m, user = user m, text' = text' m\<rparr>) st"

subsection \<open>Events and traces\<close>

text \<open>
  One event is one handler run by the runtime: the first listen callback, an accepted
  connection, the four socket events by the nickname of the socket, a command the bot
  framework has matched, an ambient message, the callbacks of \<^verbatim>\<open>netServer.close\<close>
  and \<^verbatim>\<open>netServer.listen\<close>, and the answer to a password question.
\<close>

datatype event =
    ServerListening
  | Connection
  | SocketError string
  | SocketPause string
  | SocketResume string
  | SocketClose string
  | Hears command message
  | Ambient message
  | CloseDone
  | ListenDone
  | Answer message bool

fun step :: "event \<Rightarrow> state \<Rightarrow> state" where
  "step ServerListening st = on_listening st"
| "step Connection st = on_connection st"
| "step (SocketError u) st = on_error u st"
| "step (SocketPause u) st = on_pause u st"
| "step (SocketResume u) st = on_resume u st"
| "step (SocketClose u) st = on_close u st"
| "step (Hears c m) st = hears c m st"
| "step (Ambient m) st = ambient_handler m st"
| "step CloseDone st = on_close_done st"
| "step ListenDone st = on_listen_done st"
| "step (Answer m matches) st = on_answer m matches st"

definition run :: "event list \<Rightarrow> state \<Rightarrow> state" where
  "run es st = fold step es st"

text \<open>
  The state the module builds before any event: no connection, the server fields not yet
  set, the users read from \<^verbatim>\<open>.users\<close>, and on the console the one line the
  module body itself logs, in yellow (line 439).
\<close>

definition initial :: "string \<Rightarrow> string list \<Rightarrow> state" where
  "initial port users =
     \<lparr>listenerPort = port, listenerID = 0, listeners = [],
      server_status = ''undefined'', server_port = ''undefined'',
      authenticatedUsers = users,
      console = [(Yellow, ''Waiting for flink on: '' @ port)], replies = [],
      close_callbacks = [], listen_callbacks = [], conversations = []\<rparr>"

subsection \<open>Example traces\<close>

text \<open>
  An operator who is in the users file, and a state with two connections, of which the
  second has been paused.
\<close>

definition alice :: message where
  "alice = \<lparr>channel = ''D1'', user = ''alice'', text' = ''x''\<rparr>"

definition two_clients :: state where
  "two_clients =
     run [ServerListening, Connection, Connection, SocketPause ''net#1'']
       (initial ''9000'' [''alice''])"

definition hello_world :: payload where
  "hello_world = Structured \<lparr>channel = ''C1'', user = ''U1'', text' = ''hello\<newline>world''\<rparr>"

text \<open>
  A close request with one connection open, which then leaves, and the shutdown callback.
\<close>

definition closing_trace :: "event list" where
  "closing_trace =
     [ServerListening, Connection, Hears CloseServer alice, SocketClose ''net#0'', CloseDone]"

text \<open>A caller who is not in the users file.\<close>

definition mallory :: message where
  "mallory = \<lparr>channel = ''D2'', user = ''mallory'', text' = ''x''\<rparr>"

text \<open>The server listening, with no connection.\<close>

definition idle_server :: state where
  "idle_server = run [ServerListening] (initial ''9000'' [''alice''])"

text \<open>A close request with one connection open: the server is closing.\<close>

definition closing_server :: state where
  "closing_server = run [ServerListening, Connection, Hears CloseServer alice] (initial ''9000'' [''alice''])"

text \<open>A connection paused by pause-all, then a second connection.\<close>

definition one_paused_one_running :: state where
  "one_paused_one_running =
     run [ServerListening, Connection, Hears PauseAll alice, Connection]
       (initial ''9000'' [''alice''])"

text \<open>Two running connections.\<close>

definition two_running :: state where
  "two_running = run [ServerListening, Connection, Connection] (initial ''9000'' [''alice''])"

section \<open>Properties\<close>

subsection \<open>Splitting and joining\<close>

lemma str_split_not_Nil: "str_split sep s \<noteq> []"
  by (induction s) (auto split: list.splits)

lemma str_join_Cons: "ps \<noteq> [] \<Longrightarrow> str_join sep (p # ps) = p @ sep @ str_join sep ps"
  by (cases ps) auto

lemma str_join_str_split: "str_join [sep] (str_split sep s) = s"
proof (induction s)
  case Nil
  show ?case by simp
next
  case (Cons x xs)
  show ?case
  proof (cases "x = sep")
    case True
    with Cons show ?thesis by (simp add: str_join_Cons str_split_not_Nil)
  next
    case False
    obtain p ps where ps: "str_split sep xs = p # ps"
      using str_split_not_Nil [of sep xs] by (cases "str_split sep xs") auto
    with Cons False show ?thesis by (cases ps) auto
  qed
qed

lemma str_split_no_sep: "p \<in> set (str_split sep s) \<Longrightarrow> sep \<notin> set p"
  by (induction s arbitrary: p) (auto split: if_splits list.splits)

lemma str_split_no_sep_id: "sep \<notin> set p \<Longrightarrow> str_split sep p = [p]"
  by (induction p) auto

lemma str_split_piece:
  "sep \<notin> set p \<Longrightarrow> str_split sep (p @ sep # rest) = p # str_split sep rest"
  by (induction p) auto

lemma str_split_str_join:
  "pieces \<noteq> [] \<Longrightarrow> \<forall>p \<in> set pieces. sep \<notin> set p \<Longrightarrow>
   str_split sep (str_join [sep] pieces) = pieces"
proof (induction pieces)
  case Nil
  then show ?case by simp
next
  case (Cons p ps)
  show ?case
  proof (cases ps)
    case Nil
    with Cons.prems show ?thesis by (simp add: str_split_no_sep_id)
  next
    case (Cons q qs)
    with Cons.prems Cons.IH show ?thesis
      by (simp add: str_split_piece)
  qed
qed

lemma length_str_split: "length (str_split sep s) = count_list s sep + 1"
  by (induction s) (auto split: list.splits simp: str_split_not_Nil)

subsection \<open>The registry\<close>

lemma keys_update_present: "map_of ls u = Some sock \<Longrightarrow> keys (AList.update u v ls) = keys ls"
  by (induction ls) (auto simp: keys_def)

lemma keys_on_socket: "keys (on_socket u f ls) = keys ls"
  by (auto simp: on_socket_def keys_update_present split: option.splits)

text \<open>A key that \<^verbatim>\<open>Object.keys\<close> lists is found by the lookup.\<close>

lemma map_of_keys: "u \<in> set (keys ls) \<Longrightarrow> \<exists>sock. map_of ls u = Some sock"
  by (induction ls) (auto simp: keys_def)

lemma update_middle:
  "u \<notin> fst ` set xs \<Longrightarrow> AList.update u v (xs @ (u, w) # ys) = xs @ (u, v) # ys"
  by (induction xs) auto

lemma map_of_middle: "u \<notin> fst ` set xs \<Longrightarrow> map_of (xs @ (u, w) # ys) u = Some w"
  by (induction xs) auto

text \<open>
  A loop over the keys that changes the socket under each key whose status is \<open>r\<close>:
  on an object (no key twice) it changes every entry in place. The entries before the
  one the loop is at, \<open>xs\<close>, are already done.
\<close>

lemma fold_keys_aux:
  "distinct (map fst (xs @ ys)) \<Longrightarrow>
   fold (\<lambda>u ls. if has_status ls u r then on_socket u f ls else ls) (map fst ys) (xs @ ys)
   = xs @ map (\<lambda>(u, sock). (u, if status sock = r then f sock else sock)) ys"
proof (induction ys arbitrary: xs)
  case Nil
  show ?case by simp
next
  case (Cons y ys)
  obtain u sock where y: "y = (u, sock)" by (cases y)
  from Cons.prems have notin: "u \<notin> fst ` set xs" by (auto simp: y)
  let ?sock' = "if status sock = r then f sock else sock"
  let ?g = "\<lambda>u ls. if has_status ls u r then on_socket u f ls else ls"
  have one: "?g u (xs @ y # ys) = (xs @ [(u, ?sock')]) @ ys"
  proof -
    have m: "map_of (xs @ y # ys) u = Some sock"
      unfolding y using notin by (rule map_of_middle)
    have upd: "AList.update u v (xs @ y # ys) = xs @ (u, v) # ys" for v
      unfolding y using notin by (rule update_middle)
    show ?thesis
      by (simp add: has_status_def on_socket_def m upd del: map_of_append) (simp add: y)
  qed
  have d: "distinct (map fst ((xs @ [(u, ?sock')]) @ ys))"
    using Cons.prems by (simp add: y)
  have "fold ?g (map fst (y # ys)) (xs @ y # ys) = fold ?g (map fst ys) (?g u (xs @ y # ys))"
    by (simp add: y)
  also have "\<dots> = fold ?g (map fst ys) ((xs @ [(u, ?sock')]) @ ys)"
    by (simp only: one)
  also have "\<dots> = (xs @ [(u, ?sock')]) @
      map (\<lambda>(u, sock). (u, if status sock = r then f sock else sock)) ys"
    by (rule Cons.IH [OF d])
  finally show ?case by (simp add: y)
qed

lemma fold_keys_map:
  "distinct (keys ls) \<Longrightarrow>
   fold (\<lambda>u ls. if has_status ls u r then on_socket u f ls else ls) (keys ls) ls
   = map (\<lambda>(u, sock). (u, if status sock = r then f sock else sock)) ls"
  using fold_keys_aux [of "[]" ls r f] by (simp add: keys_def)

text \<open>The same for a loop that changes the socket under every key.\<close>

lemma fold_keys_all_aux:
  "distinct (map fst (xs @ ys)) \<Longrightarrow>
   fold (\<lambda>u. on_socket u f) (map fst ys) (xs @ ys) = xs @ map (\<lambda>(u, sock). (u, f sock)) ys"
proof (induction ys arbitrary: xs)
  case Nil
  show ?case by simp
next
  case (Cons y ys)
  obtain u sock where y: "y = (u, sock)" by (cases y)
  from Cons.prems have notin: "u \<notin> fst ` set xs" by (auto simp: y)
  have one: "on_socket u f (xs @ y # ys) = (xs @ [(u, f sock)]) @ ys"
  proof -
    have m: "map_of (xs @ y # ys) u = Some sock"
      unfolding y using notin by (rule map_of_middle)
    have upd: "AList.update u v (xs @ y # ys) = xs @ (u, v) # ys" for v
      unfolding y using notin by (rule update_middle)
    show ?thesis
      by (simp add: on_socket_def m upd del: map_of_append)
  qed
  have d: "distinct (map fst ((xs @ [(u, f sock)]) @ ys))"
    using Cons.prems by (simp add: y)
  have "fold (\<lambda>u. on_socket u f) (map fst (y # ys)) (xs @ y # ys)
        = fold (\<lambda>u. on_socket u f) (map fst ys) (on_socket u f (xs @ y # ys))"
    by (simp add: y)
  also have "\<dots> = fold (\<lambda>u. on_socket u f) (map fst ys) ((xs @ [(u, f sock)]) @ ys)"
    by (simp only: one)
  also have "\<dots> = (xs @ [(u, f sock)]) @ map (\<lambda>(u, sock). (u, f sock)) ys"
    by (rule Cons.IH [OF d])
  finally show ?case by (simp add: y)
qed

lemma fold_keys_all:
  "distinct (keys ls) \<Longrightarrow>
   fold (\<lambda>u. on_socket u f) (keys ls) ls = map (\<lambda>(u, sock). (u, f sock)) ls"
  using fold_keys_all_aux [of "[]" ls f] by (simp add: keys_def)

lemma map_of_map_entries:
  "map_of (map (\<lambda>(u, sock). (u, g sock)) ls) u = map_option g (map_of ls u)"
  by (induction ls) auto

subsection \<open>broadcast\<close>

lemma calls_write_lines:
  "calls (write_lines send sock) = calls sock @ map (\<lambda>line. Write (line @ [newline])) send"
  unfolding write_lines_def
  by (induction send arbitrary: sock) (auto simp: record_call_def)

lemma status_write_lines: "status (write_lines send sock) = status sock"
  unfolding write_lines_def
  by (induction send arbitrary: sock) (auto simp: record_call_def)

lemma nickname_write_lines: "nickname (write_lines send sock) = nickname sock"
  unfolding write_lines_def
  by (induction send arbitrary: sock) (auto simp: record_call_def)

lemma write_lines_eq:
  "write_lines send sock =
     sock\<lparr>calls := calls sock @ map (\<lambda>line. Write (line @ [newline])) send\<rparr>"
  by (simp add: calls_write_lines status_write_lines nickname_write_lines)

lemma fold_console_log:
  "fold (console_log c) send st = st\<lparr>console := console st @ map (Pair c) send\<rparr>"
  by (induction send arbitrary: st) (auto simp: console_log_def)

lemma listeners_broadcast:
  "distinct (keys (listeners st)) \<Longrightarrow>
   listeners (broadcast message st) =
     map (\<lambda>(u, sock). (u, if status sock = ''running''
                           then write_lines (decompose message) sock else sock))
       (listeners st)"
  by (simp add: broadcast_def Let_def fold_console_log fold_keys_map)

lemma console_broadcast:
  "console (broadcast message st) = console st @ map (Pair Plain) (decompose message)"
  by (simp add: broadcast_def Let_def fold_console_log)

lemma two_clients_listeners:
  "listeners two_clients =
     [(''net#0'', \<lparr>nickname = ''net#0'', status = ''running'', calls = [SetNoDelay]\<rparr>),
      (''net#1'', \<lparr>nickname = ''net#1'', status = ''paused'', calls = [SetNoDelay]\<rparr>)]"
  by code_simp

lemma decompose_hello_world: "decompose hello_world = [''C1,U1,hello'', ''C1,U1,world'']"
  by code_simp

text \<open>
  C1. A broadcast leaves the keys of the registry as they are, and for every registered
  connection: if its status is running, the calls made on it are the ones made before,
  followed by one write per line of the decomposed payload, the line and then a newline,
  in the order of the lines; if its status is anything else (paused), nothing is written
  to it and the socket is unchanged.
\<close>

theorem broadcast_delivery:
  assumes "distinct (keys (listeners st))"
  shows "keys (listeners (broadcast message st)) = keys (listeners st) \<and>
         (\<forall>(u, sock) \<in> set (listeners st).
            map_of (listeners (broadcast message st)) u =
              Some (if status sock = ''running''
                    then sock\<lparr>calls := calls sock @
                                 map (\<lambda>line. Write (line @ ''\<newline>'')) (decompose message)\<rparr>
                    else sock))"
proof -
  let ?g = "\<lambda>sock. if status sock = ''running''
                   then write_lines (decompose message) sock else sock"
  have ls: "listeners (broadcast message st) = map (\<lambda>(u, sock). (u, ?g sock)) (listeners st)"
    using assms by (rule listeners_broadcast)
  have k: "keys (listeners (broadcast message st)) = keys (listeners st)"
    by (simp add: ls keys_def case_prod_unfold comp_def)
  have "map_of (listeners (broadcast message st)) u = Some (?g sock)"
    if "(u, sock) \<in> set (listeners st)" for u sock
  proof -
    from assms that have "map_of (listeners st) u = Some sock"
      by (simp add: keys_def)
    then show ?thesis
      by (simp only: ls map_of_map_entries option.map)
  qed
  then show ?thesis
    using k by (auto simp: write_lines_eq newline_def)
qed

theorem broadcast_delivery_witness:
  "distinct (keys (listeners two_clients)) \<and>
   keys (listeners (broadcast hello_world two_clients)) = [''net#0'', ''net#1''] \<and>
   map_of (listeners (broadcast hello_world two_clients)) ''net#0'' =
     Some \<lparr>nickname = ''net#0'', status = ''running'',
           calls = [SetNoDelay, Write ''C1,U1,hello\<newline>'', Write ''C1,U1,world\<newline>'']\<rparr> \<and>
   map_of (listeners (broadcast hello_world two_clients)) ''net#1'' =
     Some \<lparr>nickname = ''net#1'', status = ''paused'', calls = [SetNoDelay]\<rparr>"
proof -
  have d: "distinct (keys (listeners two_clients))"
    by (simp add: two_clients_listeners keys_def)
  show ?thesis
    using d broadcast_delivery [OF d, of hello_world]
    by (simp add: two_clients_listeners decompose_hello_world keys_def)
qed

text \<open>
  C3. For a structured payload the lines sent are, in the order of the pieces of the
  text, the channel, a comma, the user, a comma and the piece, with nothing escaped. The
  pieces are the text split at its newlines: there is one more of them than the text has
  newlines, joined with newlines they give the text back, and no piece holds a newline.
  Whatever non-empty list of pieces without a newline joins to the text, it is that list
  the lines are built from; an empty text gives the one line that ends after the second
  comma.
\<close>

theorem structured_lines:
  "decompose (Structured m) =
     map (\<lambda>line. channel m @ '','' @ user m @ '','' @ line) (str_split newline (text' m)) \<and>
   length (decompose (Structured m)) = count_list (text' m) CHR ''\<newline>'' + 1 \<and>
   str_join ''\<newline>'' (str_split newline (text' m)) = text' m \<and>
   (\<forall>line \<in> set (str_split newline (text' m)). CHR ''\<newline>'' \<notin> set line) \<and>
   (\<forall>pieces. pieces \<noteq> [] \<and> (\<forall>piece \<in> set pieces. CHR ''\<newline>'' \<notin> set piece) \<and>
              str_join ''\<newline>'' pieces = text' m \<longrightarrow>
      decompose (Structured m) =
        map (\<lambda>line. channel m @ '','' @ user m @ '','' @ line) pieces) \<and>
   (text' m = '''' \<longrightarrow> decompose (Structured m) = [channel m @ '','' @ user m @ '',''])"
proof -
  have "length (decompose (Structured m)) = count_list (text' m) newline + 1"
    by (simp add: length_str_split)
  moreover have "str_join [newline] (str_split newline (text' m)) = text' m"
    by (rule str_join_str_split)
  moreover have "\<forall>line \<in> set (str_split newline (text' m)). newline \<notin> set line"
    by (simp add: str_split_no_sep)
  moreover have "decompose (Structured m) =
        map (\<lambda>line. channel m @ '','' @ user m @ '','' @ line) pieces"
    if "pieces \<noteq> []" "\<forall>piece \<in> set pieces. newline \<notin> set piece"
      "str_join [newline] pieces = text' m" for pieces
  proof -
    from that(1,2) have "str_split newline (str_join [newline] pieces) = pieces"
      by (rule str_split_str_join)
    with that(3) show ?thesis by simp
  qed
  moreover have "decompose (Structured m) = [channel m @ '','' @ user m @ '','']"
    if "text' m = ''''"
    using that by simp
  ultimately show ?thesis
    by (simp add: newline_def)
qed

theorem structured_lines_witness:
  "decompose (Structured \<lparr>channel = ''a,b'', user = ''U1'', text' = ''hello\<newline>\<newline>wor,ld''\<rparr>) =
     [''a,b,U1,hello'', ''a,b,U1,'', ''a,b,U1,wor,ld''] \<and>
   count_list ''hello\<newline>\<newline>wor,ld'' CHR ''\<newline>'' + 1 = 3 \<and>
   str_join ''\<newline>'' [''hello'', '''', ''wor,ld''] = ''hello\<newline>\<newline>wor,ld'' \<and>
   CHR ''\<newline>'' \<notin> set ''hello'' \<and> CHR ''\<newline>'' \<notin> set ''wor,ld'' \<and>
   decompose (Structured \<lparr>channel = ''C1'', user = ''U1'', text' = ''''\<rparr>) = [''C1,U1,''] \<and>
   length (decompose (Structured \<lparr>channel = ''C1'', user = ''U1'', text' = ''''\<rparr>)) = 1"
proof -
  have s: "str_split newline ''hello\<newline>\<newline>wor,ld'' = [''hello'', '''', ''wor,ld'']"
    by code_simp
  show ?thesis
    using structured_lines [of "\<lparr>channel = ''a,b'', user = ''U1'', text' = ''hello\<newline>\<newline>wor,ld''\<rparr>"]
      structured_lines [of "\<lparr>channel = ''C1'', user = ''U1'', text' = ''''\<rparr>"]
    by (simp add: s newline_def)
qed

text \<open>
  C10. The raw empty string decomposes into one empty line; a raw text with \<open>k\<close>
  newlines decomposes into \<open>k + 1\<close> lines, the empty ones included, which joined with
  newlines give the text back. Broadcasting the empty string logs one empty line and
  writes one bare newline to every running connection, and nothing to the others.
\<close>

theorem raw_lines:
  "decompose (RawText '''') = [''''] \<and>
   length (decompose (RawText s)) = count_list s CHR ''\<newline>'' + 1 \<and>
   str_join ''\<newline>'' (decompose (RawText s)) = s \<and>
   console (broadcast (RawText '''') st) = console st @ [(Plain, '''')] \<and>
   (distinct (keys (listeners st)) \<longrightarrow>
    listeners (broadcast (RawText '''') st) =
      map (\<lambda>(u, sock). (u, if status sock = ''running''
                            then sock\<lparr>calls := calls sock @ [Write ''\<newline>'']\<rparr> else sock))
        (listeners st))"
proof -
  have "length (decompose (RawText s)) = count_list s newline + 1"
    by (simp add: length_str_split)
  moreover have "str_join [newline] (decompose (RawText s)) = s"
    by (simp add: str_join_str_split)
  moreover have "console (broadcast (RawText '''') st) = console st @ [(Plain, '''')]"
    by (simp add: console_broadcast)
  moreover have "listeners (broadcast (RawText '''') st) =
      map (\<lambda>(u, sock). (u, if status sock = ''running''
                            then sock\<lparr>calls := calls sock @ [Write [newline]]\<rparr> else sock))
        (listeners st)" if "distinct (keys (listeners st))"
    using that by (simp add: listeners_broadcast write_lines_eq case_prod_unfold)
  ultimately show ?thesis
    by (simp add: newline_def case_prod_unfold)
qed

theorem raw_lines_witness:
  "distinct (keys (listeners two_clients)) \<and>
   length (decompose (RawText ''a\<newline>\<newline>b\<newline>'')) = 4 \<and>
   decompose (RawText ''a\<newline>\<newline>b\<newline>'') = [''a'', '''', ''b'', ''''] \<and>
   listeners (broadcast (RawText '''') two_clients) =
     [(''net#0'', \<lparr>nickname = ''net#0'', status = ''running'',
                   calls = [SetNoDelay, Write ''\<newline>'']\<rparr>),
      (''net#1'', \<lparr>nickname = ''net#1'', status = ''paused'', calls = [SetNoDelay]\<rparr>)]"
proof -
  have d: "distinct (keys (listeners two_clients))"
    by (simp add: two_clients_listeners keys_def)
  have c: "count_list ''a\<newline>\<newline>b\<newline>'' CHR ''\<newline>'' + 1 = 4"
    by simp
  have e: "decompose (RawText ''a\<newline>\<newline>b\<newline>'') = [''a'', '''', ''b'', '''']"
    by code_simp
  show ?thesis
    using d raw_lines [of "''a\<newline>\<newline>b\<newline>''" two_clients]
    by (simp add: two_clients_listeners e newline_def)
qed

subsection \<open>The server status\<close>

lemma fold_keeps:
  assumes "\<And>x s. h (g x s) = h s"
  shows "h (fold g xs s) = h s"
  by (induction xs arbitrary: s) (simp_all add: assms)

lemma server_status_broadcast [simp]: "server_status (broadcast message st) = server_status st"
  by (simp add: broadcast_def Let_def fold_console_log)

lemma server_status_socket_pause: "server_status (socket_pause u st) = server_status st"
  by (simp add: socket_pause_def on_pause_def console_log_def)

lemma server_status_pauseAll_task [simp]: "server_status (pauseAll_task m st) = server_status st"
  by (simp add: pauseAll_task_def Let_def reply_def
        fold_keeps [where h = server_status] server_status_socket_pause)

lemma server_status_endAll_task [simp]: "server_status (endAll_task m st) = server_status st"
  by (simp add: endAll_task_def Let_def reply_def split: prod.splits)

lemma server_status_resumeAll_task [simp]: "server_status (resumeAll_task m st) = server_status st"
  by (simp add: resumeAll_task_def Let_def reply_def split: prod.splits)

lemma server_status_status_task [simp]: "server_status (status_task m st) = server_status st"
  by (simp add: status_task_def Let_def reply_def)

lemma server_status_openServer_task [simp]: "server_status (openServer_task m st) = server_status st"
  by (simp add: openServer_task_def reply_def)

lemma server_status_closeServer_task:
  "server_status (closeServer_task m st) =
     (if server_status st = ''listening'' \<and> listeners st \<noteq> [] then ''closing''
      else server_status st)"
  by (simp add: closeServer_task_def reply_def keys_def Let_def)

lemma server_status_hears:
  "server_status (hears c m st) =
     (if c = CloseServer \<and> isAuthenticated st (user m) \<and> server_status st = ''listening''
         \<and> listeners st \<noteq> []
      then ''closing'' else server_status st)"
  by (cases c)
    (simp_all add: authenticatedTask_def authenticate_handler_def options_handler_def
       server_status_closeServer_task reply_def Let_def)

lemma server_status_step:
  "server_status (step e st) =
     (case e of
        ServerListening \<Rightarrow> ''listening''
      | CloseDone \<Rightarrow> (if close_callbacks st = [] then server_status st else ''closed'')
      | ListenDone \<Rightarrow> (if listen_callbacks st = [] then server_status st else ''listening'')
      | Hears c m \<Rightarrow> server_status (hears c m st)
      | _ \<Rightarrow> server_status st)"
  by (cases e)
    (simp_all add: on_listening_def on_connection_def on_error_def on_pause_def on_resume_def
       on_close_def on_close_done_def on_listen_done_def on_answer_def ambient_handler_def
       console_log_def reply_def Let_def split: list.splits)

lemma run_snoc: "run (es @ [e]) st = step e (run es st)"
  by (simp add: run_def)

lemma run_take_Suc: "i < length es \<Longrightarrow> run (take (Suc i) es) st = step (es ! i) (run (take i es) st)"
  by (simp add: take_Suc_conv_app_nth run_snoc)

lemma entering_closing:
  assumes "server_status (step e st) = ''closing''" "server_status st \<noteq> ''closing''"
  shows "server_status st = ''listening'' \<and> listeners st \<noteq> [] \<and>
         (\<exists>m. e = Hears CloseServer m \<and> isAuthenticated st (user m))"
proof (cases e)
  case (Hears c m)
  with assms show ?thesis
    by (auto simp: server_status_hears split: if_splits)
qed (use assms server_status_step [of e st] in \<open>auto simp del: step.simps split: if_splits\<close>)

lemma entering_closed:
  assumes "server_status (step e st) = ''closed''" "server_status st \<noteq> ''closed''"
  shows "e = CloseDone \<and> close_callbacks st \<noteq> []"
proof (cases e)
  case (Hears c m)
  with assms show ?thesis
    by (auto simp: server_status_hears split: if_splits)
qed (use assms server_status_step [of e st] in \<open>auto simp del: step.simps split: if_splits\<close>)

text \<open>
  C5. In every trace of events from the initial state, at every position: if the server
  status is closing after the event and was not before, then it was listening, the event
  is a close-server command of an authenticated user, and at least one connection was
  registered; if the status is closed after the event and was not before, then the event
  is the callback handed to the close of the listener, never a command.
\<close>

theorem closing_only_from_listening:
  assumes "i < length es"
  shows "let before = run (take i es) (initial port users);
             after = run (take (Suc i) es) (initial port users)
         in (server_status after = ''closing'' \<and> server_status before \<noteq> ''closing'' \<longrightarrow>
               server_status before = ''listening'' \<and> listeners before \<noteq> [] \<and>
               (\<exists>m. es ! i = Hears CloseServer m \<and> isAuthenticated before (user m))) \<and>
            (server_status after = ''closed'' \<and> server_status before \<noteq> ''closed'' \<longrightarrow>
               es ! i = CloseDone \<and> close_callbacks before \<noteq> [])"
proof -
  define before where "before = run (take i es) (initial port users)"
  define after where "after = run (take (Suc i) es) (initial port users)"
  have after: "after = step (es ! i) before"
    unfolding before_def after_def using assms by (rule run_take_Suc)
  have closing: "server_status before = ''listening'' \<and> listeners before \<noteq> [] \<and>
      (\<exists>m. es ! i = Hears CloseServer m \<and> isAuthenticated before (user m))"
    if "server_status after = ''closing''" "server_status before \<noteq> ''closing''"
    using that unfolding after by (rule entering_closing)
  have closed: "es ! i = CloseDone \<and> close_callbacks before \<noteq> []"
    if "server_status after = ''closed''" "server_status before \<noteq> ''closed''"
    using that unfolding after by (rule entering_closed)
  from closing closed show ?thesis
    unfolding before_def after_def Let_def by blast
qed

theorem closing_only_from_listening_witness:
  "2 < length closing_trace \<and> 4 < length closing_trace \<and>
   server_status (run (take 2 closing_trace) (initial ''9000'' [''alice''])) = ''listening'' \<and>
   server_status (run (take 3 closing_trace) (initial ''9000'' [''alice''])) = ''closing'' \<and>
   closing_trace ! 2 = Hears CloseServer alice \<and>
   listeners (run (take 2 closing_trace) (initial ''9000'' [''alice''])) \<noteq> [] \<and>
   server_status (run (take 4 closing_trace) (initial ''9000'' [''alice''])) = ''closing'' \<and>
   server_status (run (take 5 closing_trace) (initial ''9000'' [''alice''])) = ''closed'' \<and>
   closing_trace ! 4 = CloseDone"
proof -
  have l: "2 < length closing_trace" "4 < length closing_trace"
    by (simp_all add: closing_trace_def)
  have s: "server_status (run (take 2 closing_trace) (initial ''9000'' [''alice''])) = ''listening''"
      "server_status (run (take (Suc 2) closing_trace) (initial ''9000'' [''alice''])) = ''closing''"
      "server_status (run (take 4 closing_trace) (initial ''9000'' [''alice''])) = ''closing''"
      "server_status (run (take (Suc 4) closing_trace) (initial ''9000'' [''alice''])) = ''closed''"
    by code_simp+
  show ?thesis
    using closing_only_from_listening [OF l(1), of "''9000''" "[''alice'']"]
      closing_only_from_listening [OF l(2), of "''9000''" "[''alice'']"] s l
    by (simp add: Let_def eval_nat_numeral) (simp add: closing_trace_def)
qed

subsection \<open>Closing with no connection\<close>

lemma status_task_eq:
  "status_task m st = st\<lparr>replies := replies st @ [(m,
      fold (\<lambda>u out. out @ [newline, tab] @ u @ '' is '' @ status_of (listeners st) u)
        (keys (listeners st))
        (''Listener Port: '' @ server_port st @ [newline] @ ''Server Status: '' @ server_status st
           @ [newline] @ ''Current Connections: '' @ show_nat (length (keys (listeners st)))))]\<rparr>"
  by (simp add: status_task_def Let_def reply_def)

lemma status_query_keeps:
  assumes "e \<in> range (Hears Status)"
  shows "server_status (step e st) = server_status st \<and> listeners (step e st) = listeners st \<and>
         close_callbacks (step e st) = close_callbacks st \<and> server_port (step e st) = server_port st \<and>
         authenticatedUsers (step e st) = authenticatedUsers st"
  using assms by (auto simp: authenticatedTask_def status_task_eq reply_def)

lemma status_queries_keep:
  assumes "set qs \<subseteq> range (Hears Status)"
  shows "server_status (run qs st) = server_status st \<and> listeners (run qs st) = listeners st \<and>
         close_callbacks (run qs st) = close_callbacks st \<and> server_port (run qs st) = server_port st \<and>
         authenticatedUsers (run qs st) = authenticatedUsers st"
  using assms
proof (induction qs arbitrary: st)
  case Nil
  show ?case by (simp add: run_def)
next
  case (Cons q qs)
  from Cons.prems have q: "q \<in> range (Hears Status)" and qs: "set qs \<subseteq> range (Hears Status)"
    by auto
  have "run (q # qs) st = run qs (step q st)"
    by (simp add: run_def)
  with Cons.IH [OF qs, of "step q st"] status_query_keeps [OF q, of st] show ?case
    by simp
qed

text \<open>
  C6. A close-server command of an authenticated user while the server is listening and
  no connection is registered sends no reply and leaves the status listening; through any
  number of status commands after it the status stays listening, and a status command of
  an authenticated user is answered with the server status listening and zero connections;
  when the callback of the close fires the status is closed. The status closing is never
  set on the way.
\<close>

theorem close_without_connections:
  assumes "server_status st = ''listening''" and "listeners st = []"
    and "isAuthenticated st (user m)" and "set qs \<subseteq> range (Hears Status)"
    and "isAuthenticated st (user q)"
  shows "let called = step (Hears CloseServer m) st; queried = run qs called
         in server_status called = ''listening'' \<and>
            replies called = replies st \<and>
            server_status queried = ''listening'' \<and>
            replies (step (Hears Status q) queried) = replies queried @
              [(q, ''Listener Port: '' @ server_port st @
                   ''\<newline>Server Status: listening\<newline>Current Connections: 0'')] \<and>
            server_status (step CloseDone queried) = ''closed''"
proof -
  define called where "called = step (Hears CloseServer m) st"
  define queried where "queried = run qs called"
  have called: "called = st\<lparr>close_callbacks := close_callbacks st @ [m]\<rparr>"
    using assms(1-3) by (simp add: called_def authenticatedTask_def closeServer_task_def keys_def)
  have keep: "server_status queried = server_status called" "listeners queried = listeners called"
      "close_callbacks queried = close_callbacks called" "server_port queried = server_port called"
      "authenticatedUsers queried = authenticatedUsers called"
    unfolding queried_def using status_queries_keep [OF assms(4), of called] by simp_all
  have auth: "isAuthenticated queried (user q)"
    using assms(5) by (simp add: isAuthenticated_def keep called)
  have digit: "show_nat 0 = ''0''"
    by code_simp
  have st: "status_task q queried = queried\<lparr>replies := replies queried @
      [(q, ''Listener Port: '' @ server_port st @ [newline] @ ''Server Status: listening''
           @ [newline] @ ''Current Connections: 0'')]\<rparr>"
    using assms(1,2) by (simp add: status_task_eq keep called keys_def digit)
  have "replies (step (Hears Status q) queried) = replies queried @
      [(q, ''Listener Port: '' @ server_port st @
           ''\<newline>Server Status: listening\<newline>Current Connections: 0'')]"
    using auth by (simp add: authenticatedTask_def st newline_def)
  moreover have "server_status (step CloseDone queried) = ''closed''"
    by (simp add: on_close_done_def keep called reply_def split: list.splits)
  ultimately show ?thesis
    using assms(1) unfolding Let_def called_def [symmetric] queried_def [symmetric]
    by (simp add: keep) (simp add: called)
qed

theorem close_without_connections_witness:
  "server_status idle_server = ''listening'' \<and> listeners idle_server = [] \<and>
   isAuthenticated idle_server (user alice) \<and>
   set [Hears Status alice, Hears Status alice] \<subseteq> range (Hears Status) \<and>
   server_status (step (Hears CloseServer alice) idle_server) = ''listening'' \<and>
   map snd (replies (run [Hears CloseServer alice, Hears Status alice, Hears Status alice,
                          Hears Status alice] idle_server)) =
     [''Listener Port: 9000\<newline>Server Status: listening\<newline>Current Connections: 0'',
      ''Listener Port: 9000\<newline>Server Status: listening\<newline>Current Connections: 0'',
      ''Listener Port: 9000\<newline>Server Status: listening\<newline>Current Connections: 0''] \<and>
   server_status (run [Hears CloseServer alice, Hears Status alice, Hears Status alice,
                       CloseDone] idle_server) = ''closed''"
proof -
  have h: "server_status idle_server = ''listening''" "listeners idle_server = []"
      "isAuthenticated idle_server (user alice)"
    by code_simp+
  have q: "set [Hears Status alice, Hears Status alice] \<subseteq> range (Hears Status)"
    by simp
  have r: "map snd (replies (run [Hears CloseServer alice, Hears Status alice, Hears Status alice,
                          Hears Status alice] idle_server)) =
     [''Listener Port: 9000\<newline>Server Status: listening\<newline>Current Connections: 0'',
      ''Listener Port: 9000\<newline>Server Status: listening\<newline>Current Connections: 0'',
      ''Listener Port: 9000\<newline>Server Status: listening\<newline>Current Connections: 0'']"
    by code_simp
  show ?thesis
    using close_without_connections [OF h q h(3)] h q r
    by (simp add: Let_def run_def)
qed

subsection \<open>The replies while closing, and the gate\<close>

text \<open>
  The replies in the closing state are not the strings with one space after the full
  stop: the source has two.
\<close>

theorem closing_replies_counterexample:
  "server_status closing_server = ''closing'' \<and> isAuthenticated closing_server (user alice) \<and>
   replies (step (Hears CloseServer alice) closing_server) \<noteq>
     replies closing_server @
       [(alice, ''Server is already closing. It will close after all listeners disconnect.''),
        (alice, ''Hint: you can tell me to 'end-all' to close all the listeners'')] \<and>
   replies (step (Hears OpenServer alice) closing_server) \<noteq>
     replies closing_server @
       [(alice, ''Server is currently closing. It will close after all listeners disconnect.''),
        (alice, ''Hint: you can tell me to 'end-all' to close all the listeners and then 'open-server' to open properly'')]"
  by code_simp

text \<open>
  C7, as the code has it. While the server status is closing, a close-server command of
  an authenticated user is answered with
  \<^verbatim>\<open>Server is already closing.  It will close after all listeners disconnect.\<close> and an
  open-server command with
  \<^verbatim>\<open>Server is currently closing.  It will close after all listeners disconnect.\<close>, each
  with two spaces after the first full stop and each followed by its hint as a second
  reply; nothing else in the state changes.
\<close>

theorem closing_replies:
  assumes "server_status st = ''closing''" and "isAuthenticated st (user m)"
  shows "step (Hears CloseServer m) st = st\<lparr>replies := replies st @
           [(m, ''Server is already closing.  It will close after all listeners disconnect.''),
            (m, ''Hint: you can tell me to 'end-all' to close all the listeners'')]\<rparr> \<and>
         step (Hears OpenServer m) st = st\<lparr>replies := replies st @
           [(m, ''Server is currently closing.  It will close after all listeners disconnect.''),
            (m, ''Hint: you can tell me to 'end-all' to close all the listeners and then 'open-server' to open properly'')]\<rparr>"
  using assms
  by (simp add: authenticatedTask_def closeServer_task_def openServer_task_def reply_def)

theorem closing_replies_witness:
  "server_status closing_server = ''closing'' \<and> isAuthenticated closing_server (user alice) \<and>
   map snd (replies (step (Hears CloseServer alice) closing_server)) =
     [''Attempting to Close Server'',
      ''Server will remain open until all listeners disconnect'',
      ''Hint: telling me to 'end-all' should end it now'',
      ''Server is already closing.  It will close after all listeners disconnect.'',
      ''Hint: you can tell me to 'end-all' to close all the listeners''] \<and>
   map snd (replies (step (Hears OpenServer alice) closing_server)) =
     [''Attempting to Close Server'',
      ''Server will remain open until all listeners disconnect'',
      ''Hint: telling me to 'end-all' should end it now'',
      ''Server is currently closing.  It will close after all listeners disconnect.'',
      ''Hint: you can tell me to 'end-all' to close all the listeners and then 'open-server' to open properly'']"
proof -
  have h: "server_status closing_server = ''closing''" "isAuthenticated closing_server (user alice)"
    by code_simp+
  have r: "map snd (replies closing_server) =
     [''Attempting to Close Server'',
      ''Server will remain open until all listeners disconnect'',
      ''Hint: telling me to 'end-all' should end it now'']"
    by code_simp
  show ?thesis
    using closing_replies [OF h] h r
    by simp
qed

text \<open>
  A caller who is not authenticated asks for the options and gets the command list, not
  the refusal.
\<close>

theorem options_not_gated_counterexample:
  "\<not> isAuthenticated (initial ''9000'' [''alice'']) (user mallory) \<and>
   replies (step (Hears Options mallory) (initial ''9000'' [''alice''])) =
     [(mallory, ''Command List:\<newline>'' @ [CHR 0x09] @ ''options : Get a list of all availale commands\<newline>''
                  @ [CHR 0x09] @ ''authenticate : Authenticate into the system'')] \<and>
   replies (step (Hears Options mallory) (initial ''9000'' [''alice''])) \<noteq>
     [(mallory, ''You'll need to be authenticated first. type 'authenticate' to continue'')]"
  by code_simp

text \<open>
  C9, as the code has it. Every command other than authenticate and options (status,
  end-all, pause-all, resume-all, close-server, open-server) from a caller who is not in
  the authorized set is answered with the fixed refusal and changes nothing else, and from
  a caller who is in the set runs its task. The options command is not behind the gate:
  to a caller who is not in the set it lists the two commands options and authenticate.
\<close>

theorem gate:
  assumes "c \<notin> {Authenticate, Options}"
  shows "(\<not> isAuthenticated st (user m) \<longrightarrow>
            step (Hears c m) st = st\<lparr>replies := replies st @
              [(m, ''You'll need to be authenticated first. type 'authenticate' to continue'')]\<rparr>) \<and>
         (isAuthenticated st (user m) \<longrightarrow>
            step (Hears c m) st =
              (case c of
                 Status \<Rightarrow> status_task m st
               | EndAll \<Rightarrow> endAll_task m st
               | PauseAll \<Rightarrow> pauseAll_task m st
               | ResumeAll \<Rightarrow> resumeAll_task m st
               | CloseServer \<Rightarrow> closeServer_task m st
               | OpenServer \<Rightarrow> openServer_task m st
               | _ \<Rightarrow> st)) \<and>
         (\<not> isAuthenticated st (user m) \<longrightarrow>
            step (Hears Options m) st = st\<lparr>replies := replies st @
              [(m, ''Command List:\<newline>'' @ [CHR 0x09]
                     @ ''options : Get a list of all availale commands\<newline>'' @ [CHR 0x09]
                     @ ''authenticate : Authenticate into the system'')]\<rparr>)"
  using assms
  by (cases c)
    (simp_all add: authenticatedTask_def not_authenticated_text_def reply_def options_handler_def
       newline_def tab_def)

theorem gate_witness:
  "EndAll \<notin> {Authenticate, Options} \<and>
   \<not> isAuthenticated two_clients (user mallory) \<and>
   step (Hears EndAll mallory) two_clients = two_clients\<lparr>replies :=
     [(mallory, ''You'll need to be authenticated first. type 'authenticate' to continue'')]\<rparr> \<and>
   isAuthenticated two_clients (user alice) \<and>
   map snd (replies (step (Hears EndAll alice) two_clients)) = [''Clients Terminated: 2''] \<and>
   map snd (replies (step (Hears Options mallory) two_clients)) =
     [''Command List:\<newline>'' @ [CHR 0x09]
        @ ''options : Get a list of all availale commands\<newline>'' @ [CHR 0x09]
        @ ''authenticate : Authenticate into the system'']"
proof -
  have c: "EndAll \<notin> {Authenticate, Options}"
    by simp
  have h: "\<not> isAuthenticated two_clients (user mallory)" "isAuthenticated two_clients (user alice)"
      "replies two_clients = []"
    by code_simp+
  have r: "map snd (replies (endAll_task alice two_clients)) = [''Clients Terminated: 2'']"
    by code_simp
  show ?thesis
    using gate [OF c, of two_clients mallory] gate [OF c, of two_clients alice] h r
    by simp
qed

subsection \<open>The keys of the registry along a trace\<close>

lemma keys_fold_on_socket:
  "keys (fold (\<lambda>u ls. if P ls u then on_socket u f ls else ls) us ls) = keys ls"
  by (rule fold_keeps) (simp add: keys_on_socket)

lemma keys_broadcast: "keys (listeners (broadcast message st)) = keys (listeners st)"
  by (simp add: broadcast_def Let_def fold_console_log keys_fold_on_socket)

lemma endAll_loop:
  "fold (\<lambda>u (ls, count). (on_socket u (record_call End) ls, count + 1)) us (ls, n)
   = (fold (\<lambda>u. on_socket u (record_call End)) us ls, n + length us)"
  by (induction us arbitrary: ls n) simp_all

lemma keys_fold_end: "keys (fold (\<lambda>u. on_socket u (record_call End)) us ls) = keys ls"
  by (rule fold_keeps) (simp add: keys_on_socket)

lemma endAll_task_eq:
  "endAll_task m st =
     st\<lparr>listeners := fold (\<lambda>u. on_socket u (record_call End)) (keys (listeners st)) (listeners st),
        replies := replies st @ [(m, ''Clients Terminated: '' @ show_nat (length (listeners st)))]\<rparr>"
  unfolding endAll_task_def Let_def endAll_loop
  by (simp add: reply_def keys_def)

lemma listeners_endAll_task:
  "distinct (keys (listeners st)) \<Longrightarrow>
   listeners (endAll_task m st) = map (\<lambda>(u, sock). (u, record_call End sock)) (listeners st)"
  by (simp add: endAll_task_eq fold_keys_all)

lemma authenticatedUsers_endAll_task:
  "authenticatedUsers (endAll_task m st) = authenticatedUsers st"
  by (simp add: endAll_task_eq)

lemma keys_endAll_task: "keys (listeners (endAll_task m st)) = keys (listeners st)"
  by (simp add: endAll_task_eq keys_fold_end)

lemma keys_socket_pause: "keys (listeners (socket_pause u st)) = keys (listeners st)"
  by (simp add: socket_pause_def on_pause_def console_log_def keys_on_socket)

lemma keys_pauseAll_task: "keys (listeners (pauseAll_task m st)) = keys (listeners st)"
  by (simp add: pauseAll_task_def Let_def reply_def
        fold_keeps [where h = "\<lambda>s. keys (listeners s)"] keys_socket_pause)

lemma keys_resume_loop:
  "keys (fst (fold (\<lambda>u (ls, count).
                      if has_status ls u ''paused''
                      then (on_socket u (record_call Resume) ls, count + 1)
                      else (ls, count)) us acc)) = keys (fst acc)"
  by (rule fold_keeps [where h = "\<lambda>p. keys (fst p)"]) (auto simp: keys_on_socket split: prod.splits)

lemma keys_resumeAll_task: "keys (listeners (resumeAll_task m st)) = keys (listeners st)"
proof -
  obtain ls count where l: "fold (\<lambda>u (ls, count).
                      if has_status ls u ''paused''
                      then (on_socket u (record_call Resume) ls, count + 1)
                      else (ls, count)) (keys (listeners st)) (listeners st, 0::nat) = (ls, count)"
    by (rule prod.exhaust)
  from keys_resume_loop [of "keys (listeners st)" "(listeners st, 0::nat)"]
  have "keys ls = keys (listeners st)"
    unfolding l by simp
  then show ?thesis
    unfolding resumeAll_task_def Let_def l by (simp add: reply_def)
qed

lemma keys_hears: "keys (listeners (hears c m st)) = keys (listeners st)"
  by (cases c)
    (simp_all add: authenticatedTask_def authenticate_handler_def options_handler_def
       status_task_def closeServer_task_def openServer_task_def reply_def Let_def
       keys_endAll_task keys_pauseAll_task keys_resumeAll_task)

lemma keys_step:
  "e \<noteq> Connection \<Longrightarrow>
   keys (listeners (step e st)) =
     (case e of SocketClose u \<Rightarrow> removeAll u (keys (listeners st)) | _ \<Rightarrow> keys (listeners st))"
  by (cases e)
    (simp_all add: on_listening_def on_error_def on_pause_def on_resume_def on_close_def
       on_close_done_def on_listen_done_def on_answer_def ambient_handler_def console_log_def
       reply_def Let_def keys_on_socket keys_broadcast keys_hears
       keys_def [of "AList.delete _ _"] keys_def [of "listeners st"] delete_keys
       split: list.splits)

lemma keys_run:
  "Connection \<notin> set es \<Longrightarrow>
   set (keys (listeners (run es st))) = set (keys (listeners st)) - {u. SocketClose u \<in> set es}"
proof (induction es arbitrary: st)
  case Nil
  show ?case by (simp add: run_def)
next
  case (Cons e es)
  have r: "run (e # es) st = run es (step e st)"
    by (simp add: run_def)
  from Cons.prems have e: "e \<noteq> Connection" and es: "Connection \<notin> set es"
    by auto
  show ?case
    unfolding r Cons.IH [OF es] keys_step [OF e]
    by (cases e) auto
qed

text \<open>
  Two end-all commands with no event between them: the second reports one connection
  again, since the first has only called \<^verbatim>\<open>end\<close> on the socket.
\<close>

theorem endAll_twice_counterexample:
  "map snd (replies (run [ServerListening, Connection, Hears EndAll alice, Hears EndAll alice]
                       (initial ''9000'' [''alice'']))) =
     [''Clients Terminated: 1'', ''Clients Terminated: 1'']"
  by code_simp

text \<open>
  C8, as the code has it. An end-all command of an authenticated user calls \<^verbatim>\<open>end\<close>
  on every registered connection, reports their number and leaves them registered, so
  that the same command straight after it reports the same number. If, between it and a
  second end-all command, no connection is accepted and the close event of every
  connection that was registered fires, then the registry is empty and the second command
  reports \<^verbatim>\<open>Clients Terminated: 0\<close>.
\<close>

theorem endAll_after_closes:
  assumes "isAuthenticated st (user m)"
    and "distinct (keys (listeners st))"
    and "Connection \<notin> set es"
    and "\<forall>u \<in> set (keys (listeners st)). SocketClose u \<in> set es"
    and "isAuthenticated (run es (step (Hears EndAll m) st)) (user m')"
  shows "let first = step (Hears EndAll m) st; between = run es first
         in replies first =
              replies st @ [(m, ''Clients Terminated: '' @ show_nat (length (listeners st)))] \<and>
            keys (listeners first) = keys (listeners st) \<and>
            (\<forall>(u, sock) \<in> set (listeners st).
               map_of (listeners first) u = Some (sock\<lparr>calls := calls sock @ [End]\<rparr>)) \<and>
            replies (step (Hears EndAll m) first) =
              replies first @ [(m, ''Clients Terminated: '' @ show_nat (length (listeners st)))] \<and>
            listeners between = [] \<and>
            replies (step (Hears EndAll m') between) =
              replies between @ [(m', ''Clients Terminated: 0'')]"
proof -
  define first where "first = step (Hears EndAll m) st"
  define between where "between = run es first"
  have first: "first = endAll_task m st"
    using assms(1) by (simp add: first_def authenticatedTask_def)
  have k: "keys (listeners first) = keys (listeners st)"
    by (simp add: first keys_endAll_task)
  have ended: "map_of (listeners first) u = Some (sock\<lparr>calls := calls sock @ [End]\<rparr>)"
    if "(u, sock) \<in> set (listeners st)" for u sock
  proof -
    from assms(2) that have "map_of (listeners st) u = Some sock"
      by (simp add: keys_def)
    then show ?thesis
      unfolding first listeners_endAll_task [OF assms(2)] map_of_map_entries
      by (simp add: record_call_def)
  qed
  have again: "replies (step (Hears EndAll m) first) =
      replies first @ [(m, ''Clients Terminated: '' @ show_nat (length (listeners st)))]"
  proof -
    have "isAuthenticated first (user m)"
      using assms(1) by (simp add: isAuthenticated_def first authenticatedUsers_endAll_task)
    moreover have "length (listeners first) = length (listeners st)"
      using arg_cong [OF k, of length] by (simp add: keys_def)
    ultimately show ?thesis
      by (simp add: authenticatedTask_def endAll_task_eq)
  qed
  have "set (keys (listeners between)) = {}"
    unfolding between_def keys_run [OF assms(3)] k using assms(4) by auto
  then have empty: "listeners between = []"
    by (simp add: keys_def)
  have zero: "show_nat 0 = ''0''"
    by code_simp
  have auth: "isAuthenticated between (user m')"
    using assms(5) unfolding between_def first_def .
  have last: "replies (step (Hears EndAll m') between) =
      replies between @ [(m', ''Clients Terminated: 0'')]"
    using auth by (simp add: authenticatedTask_def endAll_task_eq empty zero)
  have r: "replies first =
      replies st @ [(m, ''Clients Terminated: '' @ show_nat (length (listeners st)))]"
    by (simp add: first endAll_task_eq)
  from r k ended again empty last show ?thesis
    unfolding Let_def first_def [symmetric] between_def [symmetric] by blast
qed

theorem endAll_after_closes_witness:
  "isAuthenticated two_clients (user alice) \<and>
   keys (listeners two_clients) = [''net#0'', ''net#1''] \<and>
   distinct (keys (listeners two_clients)) \<and>
   map_of (listeners (step (Hears EndAll alice) two_clients)) ''net#0'' =
     Some \<lparr>nickname = ''net#0'', status = ''running'', calls = [SetNoDelay, End]\<rparr> \<and>
   map_of (listeners (step (Hears EndAll alice) two_clients)) ''net#1'' =
     Some \<lparr>nickname = ''net#1'', status = ''paused'', calls = [SetNoDelay, End]\<rparr> \<and>
   map snd (replies (run [Hears EndAll alice, Hears EndAll alice] two_clients)) =
     [''Clients Terminated: 2'', ''Clients Terminated: 2''] \<and>
   map snd (replies (run [Hears EndAll alice, SocketClose ''net#1'', SocketError ''net#0'',
                          SocketClose ''net#0'', Hears EndAll alice] two_clients)) =
     [''Clients Terminated: 2'', ''Clients Terminated: 0'']"
proof -
  let ?es = "[SocketClose ''net#1'', SocketError ''net#0'', SocketClose ''net#0'']"
  have a: "isAuthenticated two_clients (user alice)"
    by code_simp
  have c: "Connection \<notin> set ?es"
    by simp
  have k: "keys (listeners two_clients) = [''net#0'', ''net#1'']"
    by (simp add: two_clients_listeners keys_def)
  have d: "distinct (keys (listeners two_clients))"
    by (simp add: k)
  have u: "\<forall>u \<in> set (keys (listeners two_clients)). SocketClose u \<in> set ?es"
    by (simp add: k)
  have a': "isAuthenticated (run ?es (step (Hears EndAll alice) two_clients)) (user alice)"
    by code_simp
  have r: "replies two_clients = []" "show_nat (length (listeners two_clients)) = ''2''"
      "replies (run ?es (step (Hears EndAll alice) two_clients)) = [(alice, ''Clients Terminated: 2'')]"
    by code_simp+
  have e1: "run [Hears EndAll alice, SocketClose ''net#1'', SocketError ''net#0'',
             SocketClose ''net#0'', Hears EndAll alice] two_clients
        = step (Hears EndAll alice) (run ?es (step (Hears EndAll alice) two_clients))"
    by (simp add: run_def)
  have e2: "run [Hears EndAll alice, Hears EndAll alice] two_clients
        = step (Hears EndAll alice) (step (Hears EndAll alice) two_clients)"
    by (simp add: run_def)
  show ?thesis
    unfolding e1 e2
    using endAll_after_closes [OF a d c u a'] a k d r
    by (simp add: Let_def two_clients_listeners del: step.simps)
qed

subsection \<open>Pausing, errors and closes\<close>

lemma distinct_keys_step:
  assumes "distinct (keys (listeners st))"
  shows "distinct (keys (listeners (step e st)))"
proof (cases "e = Connection")
  case True
  with assms show ?thesis
    by (simp add: on_connection_def Let_def console_log_def keys_def distinct_update)
next
  case False
  from keys_step [OF False, of st] assms show ?thesis
    by (cases e) (simp_all del: step.simps add: distinct_removeAll)
qed

lemma distinct_keys_run:
  "distinct (keys (listeners st)) \<Longrightarrow> distinct (keys (listeners (run es st)))"
  unfolding run_def
  by (induction es arbitrary: st) (simp_all add: distinct_keys_step)

lemma distinct_keys_reachable: "distinct (keys (listeners (run es (initial port users))))"
  by (rule distinct_keys_run) (simp add: initial_def keys_def)

lemma replies_socket_pause: "replies (socket_pause u st) = replies st"
  by (simp add: socket_pause_def on_pause_def console_log_def)

lemma replies_pauseAll_task:
  "replies (pauseAll_task m st) =
     replies st @ [(m, ''Clients Paused: '' @ show_nat (length (listeners st)))]"
  by (simp add: pauseAll_task_def Let_def reply_def keys_def
        fold_keeps [where h = replies] replies_socket_pause)

text \<open>
  C2. The reply of pause-all carries the number of registered connections, whatever their
  status. After one connection has been paused and a second has joined, pause-all calls
  \<^verbatim>\<open>pause\<close> on the second only and replies \<^verbatim>\<open>Clients Paused: 2\<close>.
\<close>

theorem pauseAll_reply_counts_registry:
  "replies (pauseAll_task m st) =
     replies st @ [(m, ''Clients Paused: '' @ show_nat (length (listeners st)))] \<and>
   map (\<lambda>(u, sock). (u, status sock, calls sock)) (listeners one_paused_one_running) =
     [(''net#0'', ''paused'', [SetNoDelay, Pause]), (''net#1'', ''running'', [SetNoDelay])] \<and>
   map snd (replies one_paused_one_running) = [''Clients Paused: 1''] \<and>
   map (\<lambda>(u, sock). (u, status sock, calls sock))
       (listeners (step (Hears PauseAll alice) one_paused_one_running)) =
     [(''net#0'', ''paused'', [SetNoDelay, Pause]), (''net#1'', ''paused'', [SetNoDelay, Pause])] \<and>
   map snd (replies (step (Hears PauseAll alice) one_paused_one_running)) =
     [''Clients Paused: 1'', ''Clients Paused: 2'']"
proof -
  have "map (\<lambda>(u, sock). (u, status sock, calls sock)) (listeners one_paused_one_running) =
     [(''net#0'', ''paused'', [SetNoDelay, Pause]), (''net#1'', ''running'', [SetNoDelay])]"
    by code_simp
  moreover have "map snd (replies one_paused_one_running) = [''Clients Paused: 1'']"
    by code_simp
  moreover have "map (\<lambda>(u, sock). (u, status sock, calls sock))
       (listeners (step (Hears PauseAll alice) one_paused_one_running)) =
     [(''net#0'', ''paused'', [SetNoDelay, Pause]), (''net#1'', ''paused'', [SetNoDelay, Pause])]"
    by code_simp
  moreover have "map snd (replies (step (Hears PauseAll alice) one_paused_one_running)) =
     [''Clients Paused: 1'', ''Clients Paused: 2'']"
    by code_simp
  ultimately show ?thesis
    using replies_pauseAll_task [of m st] by blast
qed

text \<open>
  C4. Node reports a write that fails on a socket through the events of that socket,
  \<^verbatim>\<open>error\<close> and then \<^verbatim>\<open>close\<close>; the call of \<^verbatim>\<open>write\<close> itself returns.
  So a broadcast on a registry with distinct keys makes every write on every running
  connection, whatever becomes of any of them. The error event goes to the handler of
  lines 131 to 134, which logs in red that the connection has disconnected abruptly and
  changes nothing else; with the close event that follows it the connection is out of the
  registry (the close handler logs a line of its own), and the entry of every other
  connection is as the broadcast left it.
\<close>

theorem write_error_isolated:
  assumes "distinct (keys (listeners st))"
  shows "let sent = broadcast message st; dropped = run [SocketError u, SocketClose u] sent
         in (\<forall>(v, sock) \<in> set (listeners st).
               status sock = ''running'' \<longrightarrow>
               map_of (listeners sent) v =
                 Some (sock\<lparr>calls := calls sock @
                                map (\<lambda>line. Write (line @ ''\<newline>'')) (decompose message)\<rparr>)) \<and>
            step (SocketError u) sent =
              sent\<lparr>console := console sent @ [(Red, u @ '' has disconnected abruptly'')]\<rparr> \<and>
            console dropped = console sent @
              [(Red, u @ '' has disconnected abruptly''),
               (Plain, u @ '' has disconnected gracefully'')] \<and>
            listeners dropped = AList.delete u (listeners sent) \<and>
            u \<notin> set (keys (listeners dropped)) \<and>
            (\<forall>v. v \<noteq> u \<longrightarrow> map_of (listeners dropped) v = map_of (listeners sent) v)"
proof -
  define sent where "sent = broadcast message st"
  define dropped where "dropped = run [SocketError u, SocketClose u] sent"
  have written: "map_of (listeners sent) v =
          Some (sock\<lparr>calls := calls sock @
                         map (\<lambda>line. Write (line @ ''\<newline>'')) (decompose message)\<rparr>)"
    if "(v, sock) \<in> set (listeners st)" "status sock = ''running''" for v sock
  proof -
    from assms that have "map_of (listeners st) v = Some sock"
      by (simp add: keys_def)
    with that(2) show ?thesis
      unfolding sent_def
      by (simp only: listeners_broadcast [OF assms] map_of_map_entries option.map)
        (simp add: write_lines_eq newline_def)
  qed
  have err: "step (SocketError u) sent =
      sent\<lparr>console := console sent @ [(Red, u @ '' has disconnected abruptly'')]\<rparr>"
    by (simp add: on_error_def console_log_def)
  have dropped: "dropped =
      sent\<lparr>console := console sent @
              [(Red, u @ '' has disconnected abruptly''),
               (Plain, u @ '' has disconnected gracefully'')],
           listeners := AList.delete u (listeners sent)\<rparr>"
    by (simp add: dropped_def run_def on_error_def on_close_def console_log_def)
  have gone: "u \<notin> set (keys (listeners dropped))"
    using delete_notin_dom [of u "listeners sent"] by (simp add: dropped keys_def)
  have others: "map_of (listeners dropped) v = map_of (listeners sent) v" if "v \<noteq> u" for v
    using that by (simp add: dropped)
  from written err gone others show ?thesis
    unfolding Let_def sent_def [symmetric] dropped_def [symmetric]
    by (auto simp: dropped)
qed

theorem write_error_isolated_witness:
  "distinct (keys (listeners two_running)) \<and>
   map (\<lambda>(u, sock). (u, status sock)) (listeners two_running) =
     [(''net#0'', ''running''), (''net#1'', ''running'')] \<and>
   map (\<lambda>(u, sock). (u, calls sock)) (listeners (broadcast (RawText ''hi'') two_running)) =
     [(''net#0'', [SetNoDelay, Write ''hi\<newline>'']), (''net#1'', [SetNoDelay, Write ''hi\<newline>''])] \<and>
   map (\<lambda>(u, sock). (u, calls sock))
       (listeners (run [SocketError ''net#0'', SocketClose ''net#0'']
                     (broadcast (RawText ''hi'') two_running))) =
     [(''net#1'', [SetNoDelay, Write ''hi\<newline>''])] \<and>
   console (run [SocketError ''net#0'', SocketClose ''net#0'']
              (broadcast (RawText ''hi'') two_running)) =
     [(Yellow, ''Waiting for flink on: 9000''), (Plain, ''net#0 has joined''),
      (Plain, ''net#1 has joined''), (Plain, ''hi''),
      (Red, ''net#0 has disconnected abruptly''),
      (Plain, ''net#0 has disconnected gracefully'')]"
proof -
  have l: "listeners two_running =
     [(''net#0'', \<lparr>nickname = ''net#0'', status = ''running'', calls = [SetNoDelay]\<rparr>),
      (''net#1'', \<lparr>nickname = ''net#1'', status = ''running'', calls = [SetNoDelay]\<rparr>)]"
    by code_simp
  have d: "distinct (keys (listeners two_running))"
    by (simp add: l keys_def)
  have s: "listeners (broadcast (RawText ''hi'') two_running) =
     [(''net#0'', \<lparr>nickname = ''net#0'', status = ''running'',
                   calls = [SetNoDelay, Write ''hi\<newline>'']\<rparr>),
      (''net#1'', \<lparr>nickname = ''net#1'', status = ''running'',
                   calls = [SetNoDelay, Write ''hi\<newline>'']\<rparr>)]"
    by code_simp
  have c: "console (broadcast (RawText ''hi'') two_running) =
     [(Yellow, ''Waiting for flink on: 9000''), (Plain, ''net#0 has joined''),
      (Plain, ''net#1 has joined''), (Plain, ''hi'')]"
    by code_simp
  show ?thesis
    using write_error_isolated [OF d, of "RawText ''hi''" "''net#0''"] d
    by (simp add: Let_def l s c)
qed

end
